theory Spec2Isabelle
  imports Complex_Main "HOL-Library.Monad_Syntax" "HOL-Library.Sublist"
begin

section \<open>Strings and numbers of the host language\<close>

text \<open>
  Strings are lists of code units below 256 (\<^typ>\<open>char\<close>), so the white space and the
  letters with a lower-case form are those of that range. \<open>String.prototype.trim\<close>
  removes white space and line terminators at both ends.
\<close>

definition isWhiteSpace :: "char \<Rightarrow> bool" where
  "isWhiteSpace c = (of_char c \<in> {9, 10, 11, 12, 13, 32, 160 :: nat})"

definition trim :: "string \<Rightarrow> string" where
  "trim s = rev (dropWhile isWhiteSpace (rev (dropWhile isWhiteSpace s)))"

definition lowerChar :: "char \<Rightarrow> char" where
  "lowerChar c =
     (let n = (of_char c :: nat) in
      if (65 \<le> n \<and> n \<le> 90) \<or> (192 \<le> n \<and> n \<le> 222 \<and> n \<noteq> 215)
      then char_of (n + 32) else c)"

definition toLowerCase :: "string \<Rightarrow> string" where
  "toLowerCase s = map lowerChar s"

text \<open>
  \<open>s.replace(pat, rep)\<close> with a string pattern replaces the first occurrence of
  \<open>pat\<close> in \<open>s\<close> and leaves every later one in place.
\<close>

fun replace :: "string \<Rightarrow> string \<Rightarrow> string \<Rightarrow> string" where
  "replace pat rep [] = (if pat = [] then rep else [])"
| "replace pat rep (c # cs) =
     (if take (length pat) (c # cs) = pat then rep @ drop (length pat) (c # cs)
      else c # replace pat rep cs)"

text \<open>
  A number is a rational or \<open>NaN\<close>: doubles are taken as exact, which they are for the
  integers and the clock readings met here. Every comparison with \<open>NaN\<close> is false.
\<close>

datatype jsnum = Num rat | NaN

fun js_sub :: "jsnum \<Rightarrow> jsnum \<Rightarrow> jsnum" where
  "js_sub (Num a) (Num b) = Num (a - b)"
| "js_sub _ _ = NaN"

fun js_gt :: "jsnum \<Rightarrow> jsnum \<Rightarrow> bool" where
  "js_gt (Num a) (Num b) = (b < a)"
| "js_gt _ _ = False"

fun js_lt :: "jsnum \<Rightarrow> jsnum \<Rightarrow> bool" where
  "js_lt (Num a) (Num b) = (a < b)"
| "js_lt _ _ = False"

fun js_le :: "jsnum \<Rightarrow> jsnum \<Rightarrow> bool" where
  "js_le (Num a) (Num b) = (a \<le> b)"
| "js_le _ _ = False"

definition isDigit :: "char \<Rightarrow> bool" where
  "isDigit c = (48 \<le> (of_char c :: nat) \<and> (of_char c :: nat) \<le> 57)"

definition digitsValue :: "string \<Rightarrow> nat" where
  "digitsValue z = foldl (\<lambda>acc c. 10 * acc + (of_char c - 48)) 0 z"

text \<open>
  \<open>parseInt(s, 10)\<close>: leading white space is skipped, one sign is read, then the longest
  run of decimal digits; with no digit there the result is \<open>NaN\<close>, and nothing is thrown.
\<close>

definition parseInt :: "string \<Rightarrow> jsnum" where
  "parseInt s =
     (let t = dropWhile isWhiteSpace s;
          neg = (t \<noteq> [] \<and> hd t = CHR ''-'');
          r = (if t \<noteq> [] \<and> (hd t = CHR ''-'' \<or> hd t = CHR ''+'') then tl t else t);
          z = takeWhile isDigit r
      in if z = [] then NaN
         else Num (if neg then - of_nat (digitsValue z) else of_nat (digitsValue z)))"

text \<open>A field that the object does not have reads as \<open>undefined\<close>, whose string is that word.\<close>

definition js_toString :: "string option \<Rightarrow> string" where
  "js_toString v = (case v of None \<Rightarrow> ''undefined'' | Some s \<Rightarrow> s)"

section \<open>Name normalisation\<close>

text \<open>\<open>App.toId\<close>, the same in both variants of \<open>app.ts\<close>.\<close>

definition toId :: "string \<Rightarrow> string" where
  "toId name = replace '' '' ''_'' (toLowerCase (trim (replace ''_'' '' '' name)))"

section \<open>The run: state, log and environment\<close>

text \<open>
  The enumeration \<open>Mode\<close> is numeric at run time (\<open>Login = 0\<close>, \<open>Restore = 1\<close>,
  \<open>Auto = 2\<close>), and any number can reach \<open>start\<close> in its place.
\<close>

definition Mode_Login :: nat where "Mode_Login = 0"
definition Mode_Restore :: nat where "Mode_Restore = 1"
definition Mode_Auto :: nat where "Mode_Auto = 2"

record Credential =
  nation :: string
  password :: string

text \<open>
  What is thrown: an \<open>Error\<close> with its message (that of \<open>start\<close>, or what a remote call
  throws), the \<open>RangeError\<close> of the client's constructor (its message is not modelled),
  or \<open>undefined\<close> (a promise rejected with no reason). \<open>util.inspect\<close> renders an
  error as its name and message in brackets.
\<close>

datatype js_error = Undefined | Error string | RangeError

definition inspect :: "js_error \<Rightarrow> string" where
  "inspect e =
     (case e of
        Undefined \<Rightarrow> ''undefined''
      | Error m \<Rightarrow> ''[Error: '' @ m @ '']''
      | RangeError \<Rightarrow> ''[RangeError]'')"

text \<open>A remote read returns an object, read here by field name, or throws.\<close>

datatype api_reply = Returns "(string \<times> string) list" | Throws js_error

text \<open>The calls the page makes on the \<open>App\<close> while a run is suspended.\<close>

datatype ui_event = Cancel | Pause | Unpause

text \<open>
  One suspension of the run (an \<open>await\<close> of a timer, a remote call, the confirm button or
  the hidden form): the calls made on the \<open>App\<close> meanwhile, the clock (\<open>Date.now()\<close>,
  in milliseconds) at the resumption, the reply when a remote call was awaited, and the
  time after which the frame fired its load event when the form was awaited (\<open>None\<close>:
  it never did).
\<close>

record tick =
  tick_events :: "ui_event list"
  tick_now :: int
  tick_reply :: api_reply
  tick_load :: "nat option"

text \<open>
  The fields of the \<open>App\<close> (\<open>_cancel\<close>, \<open>_pause\<close>, \<open>_userAgent\<close>), the stream of
  \<open>Ui.log\<close> calls (type and message), the calls of \<open>Ui.handleFinish\<close>, and what the run
  did to the outside: the \<open>NsApi\<close> clients constructed (with their arguments), the
  \<open>cleanup\<close> calls, the remote requests (nation, shards, password, the last flag) and
  the forms submitted (field and value).
\<close>

record world =
  app_cancel :: bool
  app_pause :: bool
  app_userAgent :: string
  clock :: int
  ui_log :: "(string \<times> string) list"
  ui_finished :: nat
  api_created :: "(string \<times> bool \<times> jsnum) list"
  api_cleanups :: nat
  api_requests :: "(string \<times> string list \<times> string option \<times> bool) list"
  forms :: "(string \<times> string) list list"

text \<open>
  A state is the world and the suspensions still to come. A run that is suspended when
  they are used up does not return: \<open>None\<close>.
\<close>

type_synonym state = "world \<times> tick list"

definition Ui_log :: "string \<Rightarrow> string \<Rightarrow> world \<Rightarrow> world" where
  "Ui_log type message w = w\<lparr>ui_log := ui_log w @ [(type, message)]\<rparr>"

definition Ui_handleFinish :: "world \<Rightarrow> world" where
  "Ui_handleFinish w = w\<lparr>ui_finished := Suc (ui_finished w)\<rparr>"

definition cancel :: "world \<Rightarrow> world" where
  "cancel w = (Ui_log ''info'' ''Cancelling...'' w)\<lparr>app_cancel := True, app_pause := False\<rparr>"

definition pause :: "world \<Rightarrow> world" where
  "pause w = (Ui_log ''info'' ''Pausing...'' w)\<lparr>app_pause := True\<rparr>"

definition unpause :: "world \<Rightarrow> world" where
  "unpause w = (Ui_log ''info'' ''Unpausing...'' w)\<lparr>app_pause := False\<rparr>"

definition isPaused :: "world \<Rightarrow> bool" where
  "isPaused w = app_pause w"

definition reset :: "world \<Rightarrow> world" where
  "reset w = w\<lparr>app_cancel := False, app_pause := False\<rparr>"

fun deliver :: "ui_event \<Rightarrow> world \<Rightarrow> world" where
  "deliver Cancel w = cancel w"
| "deliver Pause w = pause w"
| "deliver Unpause w = unpause w"

text \<open>An \<open>await\<close>: the next suspension passes, with the calls made during it.\<close>

fun await :: "state \<Rightarrow> (tick \<times> state) option" where
  "await (w, []) = None"
| "await (w, t # ts) = Some (t, (fold deliver (tick_events t) (w\<lparr>clock := tick_now t\<rparr>), ts))"

text \<open>\<open>waitUntilUnpaused\<close>: while \<open>_pause\<close> is set, sleep for a second and look again.\<close>

fun waitUntilUnpaused :: "state \<Rightarrow> state option" where
  "waitUntilUnpaused (w, []) = (if app_pause w then None else Some (w, []))"
| "waitUntilUnpaused (w, t # ts) =
     (if app_pause w
      then waitUntilUnpaused (fold deliver (tick_events t) (w\<lparr>clock := tick_now t\<rparr>), ts)
      else Some (w, t # ts))"

text \<open>\<open>api.nationRequest\<close>: the request is recorded, then awaited.\<close>

fun nationRequest ::
  "string \<Rightarrow> string list \<Rightarrow> string option \<Rightarrow> bool \<Rightarrow> state \<Rightarrow> (api_reply \<times> state) option" where
  "nationRequest n shards pw auth (w, ts) =
     (case await (w\<lparr>api_requests := api_requests w @ [(n, shards, pw, auth)]\<rparr>, ts) of
        None \<Rightarrow> None
      | Some (t, s) \<Rightarrow> Some (tick_reply t, s))"

text \<open>\<open>Ui.confirm\<close>: resolves when the confirm button is clicked.\<close>

definition Ui_confirm :: "state \<Rightarrow> state option" where
  "Ui_confirm s = map_option snd (await s)"

section \<open>The hidden form: \<open>restoreRequest\<close> and \<open>loginRequest\<close>\<close>

text \<open>
  Both functions build a promise around the hidden frame: a load handler is attached, the
  frame is pointed at the form page, and a timer of 15000 ms is set. When the frame has
  loaded, the handler detaches itself, fills the form in, clicks its submit button and sets
  a timer of 6000 ms that sets \<open>resolved\<close> and resolves the promise. When the 15000 ms
  timer fires and \<open>resolved\<close> is not set, \<open>restoreRequest\<close> rejects the promise and
  \<open>loginRequest\<close> (the variant of \<open>app.ts\<close> that logs in through the form) resolves it.
  A promise that is settled stays as it is. Timers fire in the order of their due times,
  and in the order they were set when these are equal.
\<close>

datatype settled = Pending | Resolved | Rejected

datatype handler = IframeLoad | SettleTimeout | CeilingTimeout

datatype form_kind = LoginForm | RestoreForm

record request_state =
  resolved :: bool
  promise :: settled
  listening :: bool
  submitted :: "(string \<times> string) list list"

definition restoreForm :: "string \<Rightarrow> Credential \<Rightarrow> (string \<times> string) list" where
  "restoreForm ua c =
     [(''restoreUserAgent'', ua), (''restoreLoggingIn'', ''1''),
      (''restoreNation'', toId (nation c)),
      (''restoreRestoreNation'', '' Restore '' @ toId (nation c) @ '' ''),
      (''restoreRestorePassword'', password c)]"

definition loginForm :: "string \<Rightarrow> Credential \<Rightarrow> (string \<times> string) list" where
  "loginForm ua c =
     [(''loginUserAgent'', ua), (''loginLoggingIn'', ''1''),
      (''loginNation'', toId (nation c)), (''loginPassword'', password c)]"

fun insert_timer :: "nat \<times> handler \<Rightarrow> (nat \<times> handler) list \<Rightarrow> (nat \<times> handler) list" where
  "insert_timer e [] = [e]"
| "insert_timer e (x # xs) = (if fst x \<le> fst e then x # insert_timer e xs else e # x # xs)"

definition settle :: "settled \<Rightarrow> request_state \<Rightarrow> request_state" where
  "settle x st = (if promise st = Pending then st\<lparr>promise := x\<rparr> else st)"

fun fire ::
  "form_kind \<Rightarrow> (string \<times> string) list \<Rightarrow> nat \<Rightarrow> handler \<Rightarrow>
   request_state \<times> (nat \<times> handler) list \<Rightarrow> request_state \<times> (nat \<times> handler) list" where
  "fire k form now IframeLoad (st, q) =
     (if listening st
      then (st\<lparr>listening := False, submitted := submitted st @ [form]\<rparr>,
            insert_timer (now + 6000, SettleTimeout) q)
      else (st, q))"
| "fire k form now SettleTimeout (st, q) = (settle Resolved (st\<lparr>resolved := True\<rparr>), q)"
| "fire k form now CeilingTimeout (st, q) =
     (if \<not> resolved st
      then (settle (case k of RestoreForm \<Rightarrow> Rejected | LoginForm \<Rightarrow> Resolved) st, q)
      else (st, q))"

definition pending_work :: "request_state \<times> (nat \<times> handler) list \<Rightarrow> nat" where
  "pending_work p = 2 * length (snd p) + (if listening (fst p) then 1 else 0)"

function run_timers ::
  "form_kind \<Rightarrow> (string \<times> string) list \<Rightarrow> request_state \<times> (nat \<times> handler) list \<Rightarrow> request_state" where
  "run_timers k form (st, []) = st"
| "run_timers k form (st, (now, h) # q) = run_timers k form (fire k form now h (st, q))"
  by pat_completeness auto

definition start_request :: "nat option \<Rightarrow> request_state \<times> (nat \<times> handler) list" where
  "start_request load =
     (\<lparr>resolved = False, promise = Pending, listening = True, submitted = []\<rparr>,
      insert_timer (15000, CeilingTimeout)
        (case load of None \<Rightarrow> [] | Some t \<Rightarrow> [(t, IframeLoad)]))"

termination run_timers
proof (relation "measure (\<lambda>(k, form, p). pending_work p)")
  show "wf (measure (\<lambda>(k, form, p). pending_work p))"
    by simp
next
  fix k :: form_kind and form :: "(string \<times> string) list" and st :: request_state
    and now :: nat and h :: handler and q :: "(nat \<times> handler) list"
  have len: "length (insert_timer e q') = Suc (length q')" for e q'
    by (induction q') auto
  have "pending_work (fire k form now h (st, q)) < pending_work (st, (now, h) # q)"
    by (cases h) (auto simp: pending_work_def settle_def len)
  then show "((k, form, fire k form now h (st, q)), (k, form, st, (now, h) # q))
      \<in> measure (\<lambda>(k, form, p). pending_work p)"
    by simp
qed

text \<open>Each request is followed on its own to the end of its timers.\<close>

definition restoreRequest :: "string \<Rightarrow> Credential \<Rightarrow> nat option \<Rightarrow> request_state" where
  "restoreRequest ua c load = run_timers RestoreForm (restoreForm ua c) (start_request load)"

definition loginRequest :: "string \<Rightarrow> Credential \<Rightarrow> nat option \<Rightarrow> request_state" where
  "loginRequest ua c load = run_timers LoginForm (loginForm ua c) (start_request load)"

text \<open>
  The state in which the 15000 ms timer fires: the timers due before it have fired, its
  own handler has not yet run.
\<close>

function at_ceiling ::
  "form_kind \<Rightarrow> (string \<times> string) list \<Rightarrow> request_state \<times> (nat \<times> handler) list \<Rightarrow>
   request_state option" where
  "at_ceiling k form (st, []) = None"
| "at_ceiling k form (st, (now, h) # q) =
     (if h = CeilingTimeout then Some st else at_ceiling k form (fire k form now h (st, q)))"
  by pat_completeness auto

termination at_ceiling
proof (relation "measure (\<lambda>(k, form, p). pending_work p)")
  show "wf (measure (\<lambda>(k, form, p). pending_work p))"
    by simp
next
  fix k :: form_kind and form :: "(string \<times> string) list" and st :: request_state
    and now :: nat and h :: handler and q :: "(nat \<times> handler) list"
  have len: "length (insert_timer e q') = Suc (length q')" for e q'
    by (induction q') auto
  have "pending_work (fire k form now h (st, q)) < pending_work (st, (now, h) # q)"
    by (cases h) (auto simp: pending_work_def settle_def len)
  then show "((k, form, fire k form now h (st, q)), (k, form, st, (now, h) # q))
      \<in> measure (\<lambda>(k, form, p). pending_work p)"
    by simp
qed

text \<open>
  Awaiting \<open>restoreRequest\<close> in a run: the promise as it settles, and the forms
  submitted by then, which are those submitted when the 15000 ms timer fires. What a frame
  that loads later still does is not followed.
\<close>

definition submitted_by_ceiling ::
  "form_kind \<Rightarrow> (string \<times> string) list \<Rightarrow> nat option \<Rightarrow> (string \<times> string) list list" where
  "submitted_by_ceiling k form load =
     (case at_ceiling k form (start_request load) of None \<Rightarrow> [] | Some st \<Rightarrow> submitted st)"

fun await_restoreRequest :: "Credential \<Rightarrow> state \<Rightarrow> (settled \<times> state) option" where
  "await_restoreRequest c s =
     (case await s of
        None \<Rightarrow> None
      | Some (t, (w, ts)) \<Rightarrow>
          (let r = restoreRequest (app_userAgent w) c (tick_load t)
           in Some (promise r,
                    (w\<lparr>forms := forms w @
                         submitted_by_ceiling RestoreForm (restoreForm (app_userAgent w) c)
                           (tick_load t)\<rparr>, ts))))"

section \<open>The procedures of \<open>App\<close>\<close>

text \<open>
  The procedures are those of the first variant of \<open>App\<close> in \<open>app.ts\<close>, which can
  be paused and logs in through the remote interface. The client \<open>api\<close> they are passed
  is the one of the run; what is done to it is recorded in the world.

  Outcomes are not stored: each is the log line that reports it.
\<close>

definition LoginSucceeded :: "Credential \<Rightarrow> string \<times> string" where
  "LoginSucceeded c =
     (''info'', nation c @ '': Login successful (or nation was logged into in the last 30 seconds)'')"

definition LoginFailed :: "Credential \<Rightarrow> string \<times> string" where
  "LoginFailed c = (''error'', nation c @ '': Login failed'')"

definition RestoreSucceeded :: "Credential \<Rightarrow> string \<times> string" where
  "RestoreSucceeded c = (''info'', nation c @ '': Restore successful (or nation already existed)'')"

definition RestoreFailed :: "Credential \<Rightarrow> string \<times> string" where
  "RestoreFailed c = (''error'', nation c @ '': Restore failed'')"

text \<open>
  \<open>loginNations\<close>, after both reads have returned: the clock is read, the \<open>lastlogin\<close>
  field is parsed, and the difference is compared with 30.
\<close>

definition login_classify :: "bool \<Rightarrow> Credential \<Rightarrow> (string \<times> string) list \<Rightarrow> world \<Rightarrow> world" where
  "login_classify verbose c data w =
     (let now = Num (of_int (clock w) / 1000);
          lastLogin = parseInt (js_toString (map_of data ''lastlogin''))
      in if js_gt (js_sub now lastLogin) (Num 30)
         then (let w1 = Ui_log ''error'' (nation c @ '': Login failed'') w
               in if verbose
                  then Ui_log ''error'' ''More than 30 seconds between now and last login'' w1
                  else w1)
         else Ui_log ''info''
                (nation c @ '': Login successful (or nation was logged into in the last 30 seconds)'') w)"

text \<open>The \<open>catch\<close> block of \<open>loginNations\<close>.\<close>

definition login_catch :: "bool \<Rightarrow> Credential \<Rightarrow> js_error \<Rightarrow> world \<Rightarrow> world" where
  "login_catch verbose c err w =
     (let w1 = Ui_log ''error'' (nation c @ '': Login failed'') w
      in if verbose then Ui_log ''error'' (inspect err) w1 else w1)"

text \<open>The \<open>try\<close> statement of \<open>loginNations\<close>, for one credential.\<close>

definition login_try :: "bool \<Rightarrow> Credential \<Rightarrow> state \<Rightarrow> state option" where
  "login_try verbose c s =
     (case nationRequest (nation c) [''nextissuetime''] (Some (password c)) True
             (apfst (Ui_log ''info'' (nation c @ '': Logging in...'')) s) of
        None \<Rightarrow> None
      | Some (Throws err, s1) \<Rightarrow> Some (apfst (login_catch verbose c err) s1)
      | Some (Returns d, s1) \<Rightarrow>
          (case nationRequest (nation c) [''lastlogin''] None False s1 of
             None \<Rightarrow> None
           | Some (Throws err, s2) \<Rightarrow> Some (apfst (login_catch verbose c err) s2)
           | Some (Returns data, s2) \<Rightarrow> Some (apfst (login_classify verbose c data) s2)))"

fun loginNations :: "bool \<Rightarrow> Credential list \<Rightarrow> state \<Rightarrow> state option" where
  "loginNations verbose [] s = Some s"
| "loginNations verbose (c # cs) s =
     (if app_cancel (fst s) then Some s
      else waitUntilUnpaused s \<bind> login_try verbose c \<bind> loginNations verbose cs)"

text \<open>The \<open>catch\<close> block and the \<open>try\<close> statement of \<open>restoreNations\<close>.\<close>

definition restore_catch :: "bool \<Rightarrow> Credential \<Rightarrow> js_error \<Rightarrow> world \<Rightarrow> world" where
  "restore_catch verbose c err w =
     (let w1 = Ui_log ''error'' (nation c @ '': Restore failed'') w
      in if verbose then Ui_log ''error'' (inspect err) w1 else w1)"

definition restore_try :: "bool \<Rightarrow> Credential \<Rightarrow> state \<Rightarrow> state option" where
  "restore_try verbose c s =
     (case await_restoreRequest c s of
        None \<Rightarrow> None
      | Some (Pending, s1) \<Rightarrow> None
      | Some (Rejected, s1) \<Rightarrow> Some (apfst (restore_catch verbose c Undefined) s1)
      | Some (Resolved, s1) \<Rightarrow>
          (case nationRequest (nation c) [''name''] None False s1 of
             None \<Rightarrow> None
           | Some (Throws err, s2) \<Rightarrow> Some (apfst (restore_catch verbose c err) s2)
           | Some (Returns d, s2) \<Rightarrow>
               Some (apfst (Ui_log ''info''
                      (nation c @ '': Restore successful (or nation already existed)'')) s2)))"

text \<open>One credential of \<open>restoreNations\<close>, from the first log line on.\<close>

definition restore_one :: "bool \<Rightarrow> Credential \<Rightarrow> state \<Rightarrow> state option" where
  "restore_one verbose c s =
     Ui_confirm (apfst (Ui_log ''info'' (nation c @ '': Waiting for confirmation...'')) s)
       \<bind> (\<lambda>s1. restore_try verbose c
              (apfst (Ui_log ''info'' (nation c @ '': Confirmation received, restoring...'')) s1))"

fun restoreNations :: "bool \<Rightarrow> Credential list \<Rightarrow> state \<Rightarrow> state option" where
  "restoreNations verbose [] s = Some s"
| "restoreNations verbose (c # cs) s =
     (if app_cancel (fst s) then Some s
      else waitUntilUnpaused s \<bind> restore_one verbose c \<bind> restoreNations verbose cs)"

text \<open>One credential of \<open>auto\<close>, from its \<open>try\<close> statement on.\<close>

definition auto_one :: "bool \<Rightarrow> Credential \<Rightarrow> state \<Rightarrow> state option" where
  "auto_one verbose c s =
     (case nationRequest (nation c) [''name''] None False
             (apfst (Ui_log ''info'' (nation c @ '': Nation exists'')) s) of
        None \<Rightarrow> None
      | Some (Returns d, s1) \<Rightarrow> loginNations verbose [c] s1
      | Some (Throws err, s1) \<Rightarrow>
          restoreNations verbose [c]
            (apfst (Ui_log ''info'' (nation c @ '': Nation does not exist'')) s1))"

fun auto :: "bool \<Rightarrow> Credential list \<Rightarrow> state \<Rightarrow> state option" where
  "auto verbose [] s = Some s"
| "auto verbose (c # cs) s =
     (if app_cancel (fst s) then Some s
      else waitUntilUnpaused s \<bind> auto_one verbose c \<bind> auto verbose cs)"

section \<open>\<open>App.start\<close>\<close>

definition composed_userAgent :: "string \<Rightarrow> string" where
  "composed_userAgent userAgent =
     ''nslogin-web (maintained by Auralia, currently used by \"'' @ userAgent @ ''\")''"

text \<open>
  The constructor belongs to the \<open>nsapi\<close> package, which is not among the sources. It is
  taken to refuse an API delay below 600 ms by throwing a \<open>RangeError\<close>, and to accept
  every other.
\<close>

definition apiDelay_refused :: "jsnum \<Rightarrow> bool" where
  "apiDelay_refused rateLimit = js_lt rateLimit (Num 600)"

definition NsApi_new :: "string \<Rightarrow> bool \<Rightarrow> jsnum \<Rightarrow> world \<Rightarrow> js_error + world" where
  "NsApi_new userAgent delay rateLimit w =
     (if apiDelay_refused rateLimit then Inl RangeError
      else Inr (w\<lparr>api_created := api_created w @ [(userAgent, delay, rateLimit)]\<rparr>))"

definition NsApi_cleanup :: "world \<Rightarrow> world" where
  "NsApi_cleanup w = w\<lparr>api_cleanups := Suc (api_cleanups w)\<rparr>"

text \<open>
  The \<open>try\<close> block of \<open>start\<close>: it returns, throws (\<open>Some\<close> of what is thrown), or does
  not come back.
\<close>

definition dispatch ::
  "nat \<Rightarrow> Credential list \<Rightarrow> bool \<Rightarrow> state \<Rightarrow> (js_error option \<times> state) option" where
  "dispatch mode credentials verbose s =
     (if mode = Mode_Auto
      then map_option (Pair None) (auto verbose credentials (apfst (Ui_log ''info'' ''Auto mode'') s))
      else if mode = Mode_Login
      then map_option (Pair None)
             (loginNations verbose credentials (apfst (Ui_log ''info'' ''Login mode'') s))
      else if mode = Mode_Restore
      then map_option (Pair None)
             (restoreNations verbose credentials (apfst (Ui_log ''info'' ''Restore mode'') s))
      else Some (Some (Error ''Unrecognized mode''), s))"

text \<open>\<open>try { body } finally { fin }\<close>: \<open>fin\<close> runs when \<open>body\<close> has returned or thrown.\<close>

definition try_finally ::
  "(state \<Rightarrow> (js_error option \<times> state) option) \<Rightarrow> (world \<Rightarrow> world) \<Rightarrow>
   state \<Rightarrow> (js_error option \<times> state) option" where
  "try_finally body fin s =
     (case body s of None \<Rightarrow> None | Some (r, s1) \<Rightarrow> Some (r, apfst fin s1))"

text \<open>\<open>start\<close> from its \<open>try\<close> statement on, with the client constructed.\<close>

definition start_run ::
  "nat \<Rightarrow> Credential list \<Rightarrow> bool \<Rightarrow> state \<Rightarrow> (js_error option \<times> state) option" where
  "start_run mode credentials verbose s2 =
     (case try_finally (dispatch mode credentials verbose) NsApi_cleanup s2 of
        None \<Rightarrow> None
      | Some (Some err, s3) \<Rightarrow> Some (Some err, s3)
      | Some (None, s3) \<Rightarrow>
          (case waitUntilUnpaused
                  (apfst (Ui_log ''info''
                     (if app_cancel (fst s3) then ''Process cancelled.'' else ''Process complete.'')) s3) of
             None \<Rightarrow> None
           | Some s4 \<Rightarrow> Some (None, apfst Ui_handleFinish s4)))"

text \<open>
  \<open>start\<close>: the client is constructed before the \<open>try\<close> statement, so what its
  constructor throws leaves \<open>start\<close> at once.
\<close>

definition start ::
  "string \<Rightarrow> jsnum \<Rightarrow> nat \<Rightarrow> Credential list \<Rightarrow> bool \<Rightarrow> state \<Rightarrow> (js_error option \<times> state) option" where
  "start userAgent rateLimit mode credentials verbose s =
     (let s1 = apfst (\<lambda>w. (reset w)\<lparr>app_userAgent := composed_userAgent userAgent\<rparr>) s
      in case NsApi_new userAgent True rateLimit (fst s1) of
           Inl err \<Rightarrow> Some (Some err, s1)
         | Inr w2 \<Rightarrow> start_run mode credentials verbose (w2, snd s1))"

section \<open>What a step of a run may change\<close>

text \<open>
  The log line of a call made on the \<open>App\<close>; whether \<open>cancel\<close> is called in one of the
  given suspensions; the part of the world that no procedure touches, with the log only
  growing; and a step from one state to a later one: suspensions are used up from the
  front, and \<open>_cancel\<close> is set afterwards exactly when it was set before or \<open>cancel\<close> was
  called meanwhile.
\<close>

fun event_line :: "ui_event \<Rightarrow> string \<times> string" where
  "event_line Cancel = (''info'', ''Cancelling...'')"
| "event_line Pause = (''info'', ''Pausing...'')"
| "event_line Unpause = (''info'', ''Unpausing...'')"

definition cancelled_in :: "tick list \<Rightarrow> bool" where
  "cancelled_in pre = (\<exists>t\<in>set pre. Cancel \<in> set (tick_events t))"

definition keeps :: "world \<Rightarrow> world \<Rightarrow> bool" where
  "keeps w w' \<longleftrightarrow>
     api_created w' = api_created w \<and> api_cleanups w' = api_cleanups w \<and>
     app_userAgent w' = app_userAgent w \<and> ui_finished w' = ui_finished w \<and>
     prefix (ui_log w) (ui_log w')"

definition advances :: "state \<Rightarrow> state \<Rightarrow> bool" where
  "advances s s' \<longleftrightarrow>
     keeps (fst s) (fst s') \<and>
     (\<exists>pre. snd s = pre @ snd s' \<and>
        (app_cancel (fst s') \<longleftrightarrow> app_cancel (fst s) \<or> cancelled_in pre))"

text \<open>The world of a new \<open>App\<close>: its constructor calls \<open>reset\<close>; nothing is logged yet.\<close>

definition new_App :: world where
  "new_App = \<lparr>app_cancel = False, app_pause = False, app_userAgent = [], clock = 0, ui_log = [],
     ui_finished = 0, api_created = [], api_cleanups = 0, api_requests = [], forms = []\<rparr>"

section \<open>Steps of a run\<close>

lemma keeps_refl [simp]: "keeps w w"
  by (simp add: keeps_def)

lemma keeps_trans: "keeps a b \<Longrightarrow> keeps b c \<Longrightarrow> keeps a c"
  by (auto simp: keeps_def)

lemma advances_refl [simp]: "advances s s"
  unfolding advances_def cancelled_in_def by (intro conjI exI[of _ "[]"]) simp_all

lemma cancelled_in_append [simp]: "cancelled_in (a @ b) \<longleftrightarrow> cancelled_in a \<or> cancelled_in b"
  by (auto simp: cancelled_in_def)

lemma advances_trans:
  assumes "advances a b" and "advances b c"
  shows "advances a c"
proof -
  from assms(1) obtain p1 where p1: "snd a = p1 @ snd b"
    "app_cancel (fst b) \<longleftrightarrow> app_cancel (fst a) \<or> cancelled_in p1" and k1: "keeps (fst a) (fst b)"
    by (auto simp: advances_def)
  from assms(2) obtain p2 where p2: "snd b = p2 @ snd c"
    "app_cancel (fst c) \<longleftrightarrow> app_cancel (fst b) \<or> cancelled_in p2" and k2: "keeps (fst b) (fst c)"
    by (auto simp: advances_def)
  have "snd a = (p1 @ p2) @ snd c" using p1(1) p2(1) by simp
  moreover have "app_cancel (fst c) \<longleftrightarrow> app_cancel (fst a) \<or> cancelled_in (p1 @ p2)"
    using p1(2) p2(2) by auto
  ultimately show ?thesis
    unfolding advances_def using keeps_trans[OF k1 k2] by blast
qed

lemma deliver_log: "ui_log (deliver e w) = ui_log w @ [event_line e]"
  by (cases e) (simp_all add: cancel_def pause_def unpause_def Ui_log_def)

lemma deliver_cancel: "app_cancel (deliver e w) \<longleftrightarrow> app_cancel w \<or> e = Cancel"
  by (cases e) (simp_all add: cancel_def pause_def unpause_def Ui_log_def)

lemma deliver_keeps: "keeps w (deliver e w)"
  by (cases e) (simp_all add: keeps_def cancel_def pause_def unpause_def Ui_log_def)

lemma fold_deliver_log: "ui_log (fold deliver evs w) = ui_log w @ map event_line evs"
  by (induction evs arbitrary: w) (simp_all add: deliver_log)

lemma fold_deliver_cancel: "app_cancel (fold deliver evs w) \<longleftrightarrow> app_cancel w \<or> Cancel \<in> set evs"
  by (induction evs arbitrary: w) (auto simp: deliver_cancel)

lemma fold_deliver_keeps: "keeps w (fold deliver evs w)"
proof (induction evs arbitrary: w)
  case Nil
  show ?case by simp
next
  case (Cons e evs)
  show ?case using keeps_trans[OF deliver_keeps Cons.IH] by simp
qed

lemma Ui_log_keeps: "keeps w (Ui_log t m w)"
  by (simp add: keeps_def Ui_log_def)

lemma Ui_log_advances: "advances s (apfst (Ui_log t m) s)"
  unfolding advances_def cancelled_in_def
  by (intro conjI exI[of _ "[]"]) (simp_all add: Ui_log_keeps, simp add: Ui_log_def)

lemma pass_advances:
  "advances (w, t # ts) (fold deliver (tick_events t) (w\<lparr>clock := tick_now t\<rparr>), ts)"
proof -
  have "keeps w (w\<lparr>clock := tick_now t\<rparr>)" by (simp add: keeps_def)
  then have "keeps w (fold deliver (tick_events t) (w\<lparr>clock := tick_now t\<rparr>))"
    using fold_deliver_keeps by (rule keeps_trans)
  moreover have "t # ts = [t] @ ts" by simp
  moreover have "app_cancel (fold deliver (tick_events t) (w\<lparr>clock := tick_now t\<rparr>))
      \<longleftrightarrow> app_cancel w \<or> cancelled_in [t]"
    by (simp add: fold_deliver_cancel cancelled_in_def)
  ultimately show ?thesis
    unfolding advances_def by (metis fst_conv snd_conv)
qed

lemma await_advances: "await s = Some (t, s') \<Longrightarrow> advances s s'"
  by (cases s rule: await.cases) (auto simp: pass_advances)

lemma waitUntilUnpaused_advances: "waitUntilUnpaused s = Some s' \<Longrightarrow> advances s s'"
proof (induction s arbitrary: s' rule: waitUntilUnpaused.induct)
  case (1 w)
  then show ?case by (auto split: if_splits)
next
  case (2 w t ts)
  show ?case
  proof (cases "app_pause w")
    case True
    with 2 have "advances (fold deliver (tick_events t) (w\<lparr>clock := tick_now t\<rparr>), ts) s'"
      by simp
    with pass_advances show ?thesis by (rule advances_trans)
  next
    case False
    with 2 show ?thesis by simp
  qed
qed

lemma requests_advances: "advances (w, ts) (w\<lparr>api_requests := r\<rparr>, ts)"
  unfolding advances_def cancelled_in_def
  by (intro conjI exI[of _ "[]"]) (simp_all add: keeps_def)

lemma nationRequest_advances:
  assumes "nationRequest n sh pw au s = Some (r, s')"
  shows "advances s s'"
proof (cases s)
  case (Pair w ts)
  with assms obtain t where
    "await (w\<lparr>api_requests := api_requests w @ [(n, sh, pw, au)]\<rparr>, ts) = Some (t, s')"
    by (auto split: option.splits)
  then have "advances (w\<lparr>api_requests := api_requests w @ [(n, sh, pw, au)]\<rparr>, ts) s'"
    by (rule await_advances)
  with requests_advances show ?thesis unfolding Pair by (rule advances_trans)
qed

lemma Ui_confirm_advances: "Ui_confirm s = Some s' \<Longrightarrow> advances s s'"
  by (auto simp: Ui_confirm_def dest: await_advances)

lemma forms_advances: "advances (w, ts) (w\<lparr>forms := r\<rparr>, ts)"
  unfolding advances_def cancelled_in_def
  by (intro conjI exI[of _ "[]"]) (simp_all add: keeps_def)

lemma await_restoreRequest_advances:
  assumes "await_restoreRequest c s = Some (r, s')"
  shows "advances s s'"
proof -
  from assms obtain t w ts where a: "await s = Some (t, (w, ts))"
    and s': "s' = (w\<lparr>forms := forms w @
        submitted_by_ceiling RestoreForm (restoreForm (app_userAgent w) c) (tick_load t)\<rparr>, ts)"
    by (auto split: option.splits simp: Let_def)
  from a have "advances s (w, ts)" by (rule await_advances)
  then show ?thesis unfolding s' using forms_advances by (rule advances_trans)
qed

lemma sync_advances:
  assumes "keeps (fst s) (f (fst s))" and "app_cancel (f (fst s)) = app_cancel (fst s)"
  shows "advances s (apfst f s)"
  unfolding advances_def cancelled_in_def
  using assms by (intro conjI exI[of _ "[]"]) (simp_all add: apfst_def map_prod_def split_beta)

lemma login_classify_advances: "advances s (apfst (login_classify v c d) s)"
  by (rule sync_advances) (simp_all add: login_classify_def Let_def keeps_def Ui_log_def)

lemma login_catch_advances: "advances s (apfst (login_catch v c e) s)"
  by (rule sync_advances) (simp_all add: login_catch_def Let_def keeps_def Ui_log_def)

lemma restore_catch_advances: "advances s (apfst (restore_catch v c e) s)"
  by (rule sync_advances) (simp_all add: restore_catch_def Let_def keeps_def Ui_log_def)

lemma login_try_advances:
  assumes "login_try v c s = Some s'"
  shows "advances s s'"
proof -
  let ?s0 = "apfst (Ui_log ''info'' (nation c @ '': Logging in...'')) s"
  have a0: "advances s ?s0" by (rule Ui_log_advances)
  from assms obtain r1 s1 where n1:
    "nationRequest (nation c) [''nextissuetime''] (Some (password c)) True ?s0 = Some (r1, s1)"
    by (auto simp: login_try_def split: option.splits)
  have a1: "advances s s1" using a0 nationRequest_advances[OF n1] by (rule advances_trans)
  show ?thesis
  proof (cases r1)
    case (Throws err)
    with assms n1 have "s' = apfst (login_catch v c err) s1"
      by (simp add: login_try_def)
    then show ?thesis using advances_trans[OF a1 login_catch_advances] by simp
  next
    case (Returns d)
    with assms n1 obtain r2 s2 where n2:
      "nationRequest (nation c) [''lastlogin''] None False s1 = Some (r2, s2)"
      by (auto simp: login_try_def split: option.splits)
    have a2: "advances s s2" using a1 nationRequest_advances[OF n2] by (rule advances_trans)
    show ?thesis
    proof (cases r2)
      case (Throws err)
      with assms n1 n2 Returns have "s' = apfst (login_catch v c err) s2"
        by (simp add: login_try_def)
      then show ?thesis using advances_trans[OF a2 login_catch_advances] by simp
    next
      case (Returns data)
      with assms n1 n2 \<open>r1 = Returns d\<close> have "s' = apfst (login_classify v c data) s2"
        by (simp add: login_try_def)
      then show ?thesis using advances_trans[OF a2 login_classify_advances] by simp
    qed
  qed
qed

lemma restore_try_advances:
  assumes "restore_try v c s = Some s'"
  shows "advances s s'"
proof -
  from assms obtain r1 s1 where n1: "await_restoreRequest c s = Some (r1, s1)"
    by (auto simp: restore_try_def split: option.splits simp del: await_restoreRequest.simps)
  have a1: "advances s s1" using n1 by (rule await_restoreRequest_advances)
  show ?thesis
  proof (cases r1)
    case Pending
    with assms n1 show ?thesis by (simp add: restore_try_def del: await_restoreRequest.simps)
  next
    case Rejected
    with assms n1 have "s' = apfst (restore_catch v c Undefined) s1"
      by (simp add: restore_try_def del: await_restoreRequest.simps)
    then show ?thesis using advances_trans[OF a1 restore_catch_advances] by simp
  next
    case Resolved
    with assms n1 obtain r2 s2 where n2:
      "nationRequest (nation c) [''name''] None False s1 = Some (r2, s2)"
      by (auto simp: restore_try_def split: option.splits simp del: await_restoreRequest.simps)
    have a2: "advances s s2" using a1 nationRequest_advances[OF n2] by (rule advances_trans)
    show ?thesis
    proof (cases r2)
      case (Throws err)
      with assms n1 n2 Resolved have "s' = apfst (restore_catch v c err) s2"
        by (simp add: restore_try_def del: await_restoreRequest.simps)
      then show ?thesis using advances_trans[OF a2 restore_catch_advances] by simp
    next
      case (Returns data)
      with assms n1 n2 Resolved have
        "s' = apfst (Ui_log ''info'' (nation c @ '': Restore successful (or nation already existed)'')) s2"
        by (simp add: restore_try_def del: await_restoreRequest.simps)
      then show ?thesis using advances_trans[OF a2 Ui_log_advances] by simp
    qed
  qed
qed

lemma restore_one_advances:
  assumes "restore_one v c s = Some s'"
  shows "advances s s'"
proof -
  let ?s0 = "apfst (Ui_log ''info'' (nation c @ '': Waiting for confirmation...'')) s"
  from assms obtain s1 where c1: "Ui_confirm ?s0 = Some s1"
    and t1: "restore_try v c
       (apfst (Ui_log ''info'' (nation c @ '': Confirmation received, restoring...'')) s1) = Some s'"
    by (auto simp: restore_one_def split: bind_splits)
  have "advances s ?s0" by (rule Ui_log_advances)
  then have "advances s s1" using Ui_confirm_advances[OF c1] by (rule advances_trans)
  then have "advances s (apfst (Ui_log ''info'' (nation c @ '': Confirmation received, restoring...'')) s1)"
    using Ui_log_advances by (rule advances_trans)
  then show ?thesis using restore_try_advances[OF t1] by (rule advances_trans)
qed

lemma loginNations_advances: "loginNations v cs s = Some s' \<Longrightarrow> advances s s'"
proof (induction cs arbitrary: s)
  case Nil
  then show ?case by simp
next
  case (Cons c cs)
  show ?case
  proof (cases "app_cancel (fst s)")
    case True
    with Cons.prems show ?thesis by simp
  next
    case False
    with Cons.prems obtain s1 s2 where w1: "waitUntilUnpaused s = Some s1"
      and o1: "login_try v c s1 = Some s2" and r1: "loginNations v cs s2 = Some s'"
      by (auto split: bind_splits)
    show ?thesis
      by (rule advances_trans[OF waitUntilUnpaused_advances[OF w1]
            advances_trans[OF login_try_advances[OF o1] Cons.IH[OF r1]]])
  qed
qed

lemma restoreNations_advances: "restoreNations v cs s = Some s' \<Longrightarrow> advances s s'"
proof (induction cs arbitrary: s)
  case Nil
  then show ?case by simp
next
  case (Cons c cs)
  show ?case
  proof (cases "app_cancel (fst s)")
    case True
    with Cons.prems show ?thesis by simp
  next
    case False
    with Cons.prems obtain s1 s2 where w1: "waitUntilUnpaused s = Some s1"
      and o1: "restore_one v c s1 = Some s2" and r1: "restoreNations v cs s2 = Some s'"
      by (auto split: bind_splits)
    show ?thesis
      by (rule advances_trans[OF waitUntilUnpaused_advances[OF w1]
            advances_trans[OF restore_one_advances[OF o1] Cons.IH[OF r1]]])
  qed
qed

lemma auto_one_advances:
  assumes "auto_one v c s = Some s'"
  shows "advances s s'"
proof -
  let ?s0 = "apfst (Ui_log ''info'' (nation c @ '': Nation exists'')) s"
  from assms obtain r1 s1 where n1:
    "nationRequest (nation c) [''name''] None False ?s0 = Some (r1, s1)"
    by (auto simp: auto_one_def split: option.splits)
  have "advances s ?s0" by (rule Ui_log_advances)
  then have a1: "advances s s1" using nationRequest_advances[OF n1] by (rule advances_trans)
  show ?thesis
  proof (cases r1)
    case (Returns d)
    with assms n1 have l1: "loginNations v [c] s1 = Some s'"
      by (simp add: auto_one_def)
    show ?thesis by (rule advances_trans[OF a1 loginNations_advances[OF l1]])
  next
    case (Throws err)
    with assms n1 have l1: "restoreNations v [c]
        (apfst (Ui_log ''info'' (nation c @ '': Nation does not exist'')) s1) = Some s'"
      by (simp add: auto_one_def)
    show ?thesis
      by (rule advances_trans[OF advances_trans[OF a1 Ui_log_advances] restoreNations_advances[OF l1]])
  qed
qed

lemma auto_advances: "auto v cs s = Some s' \<Longrightarrow> advances s s'"
proof (induction cs arbitrary: s)
  case Nil
  then show ?case by simp
next
  case (Cons c cs)
  show ?case
  proof (cases "app_cancel (fst s)")
    case True
    with Cons.prems show ?thesis by simp
  next
    case False
    with Cons.prems obtain s1 s2 where w1: "waitUntilUnpaused s = Some s1"
      and o1: "auto_one v c s1 = Some s2" and r1: "auto v cs s2 = Some s'"
      by (auto split: bind_splits)
    show ?thesis
      by (rule advances_trans[OF waitUntilUnpaused_advances[OF w1]
            advances_trans[OF auto_one_advances[OF o1] Cons.IH[OF r1]]])
  qed
qed

section \<open>Cancellation\<close>

lemma loginNations_cancelled: "app_cancel (fst s) \<Longrightarrow> loginNations v cs s = Some s"
  by (cases cs) simp_all

lemma restoreNations_cancelled: "app_cancel (fst s) \<Longrightarrow> restoreNations v cs s = Some s"
  by (cases cs) simp_all

lemma auto_cancelled: "app_cancel (fst s) \<Longrightarrow> auto v cs s = Some s"
  by (cases cs) simp_all

lemma loginNations_append:
  "loginNations v (cs1 @ cs2) s = loginNations v cs1 s \<bind> loginNations v cs2"
proof (induction cs1 arbitrary: s)
  case Nil
  show ?case by simp
next
  case (Cons c cs1)
  show ?case
  proof (cases "app_cancel (fst s)")
    case True
    then show ?thesis by (simp add: loginNations_cancelled)
  next
    case False
    have "loginNations v (cs1 @ cs2) = (\<lambda>s. loginNations v cs1 s \<bind> loginNations v cs2)"
      by (rule ext) (rule Cons.IH)
    with False show ?thesis by (simp add: bind_assoc)
  qed
qed

lemma restoreNations_append:
  "restoreNations v (cs1 @ cs2) s = restoreNations v cs1 s \<bind> restoreNations v cs2"
proof (induction cs1 arbitrary: s)
  case Nil
  show ?case by simp
next
  case (Cons c cs1)
  show ?case
  proof (cases "app_cancel (fst s)")
    case True
    then show ?thesis by (simp add: restoreNations_cancelled)
  next
    case False
    have "restoreNations v (cs1 @ cs2) = (\<lambda>s. restoreNations v cs1 s \<bind> restoreNations v cs2)"
      by (rule ext) (rule Cons.IH)
    with False show ?thesis by (simp add: bind_assoc)
  qed
qed

lemma auto_append: "auto v (cs1 @ cs2) s = auto v cs1 s \<bind> auto v cs2"
proof (induction cs1 arbitrary: s)
  case Nil
  show ?case by simp
next
  case (Cons c cs1)
  show ?case
  proof (cases "app_cancel (fst s)")
    case True
    then show ?thesis by (simp add: auto_cancelled)
  next
    case False
    have "auto v (cs1 @ cs2) = (\<lambda>s. auto v cs1 s \<bind> auto v cs2)"
      by (rule ext) (rule Cons.IH)
    with False show ?thesis by (simp add: bind_assoc)
  qed
qed

lemma advances_cancel:
  assumes "advances s s1" and "snd s = pre @ snd s1" and "app_cancel (fst s) \<or> cancelled_in pre"
  shows "app_cancel (fst s1)"
proof -
  from assms(1) obtain p where p: "snd s = p @ snd s1"
    and c: "app_cancel (fst s1) \<longleftrightarrow> app_cancel (fst s) \<or> cancelled_in p"
    by (auto simp: advances_def)
  from p assms(2) have "p = pre" by simp
  with c assms(3) show ?thesis by simp
qed

text \<open>
  C2. Let \<open>P\<close> be the procedure of any of the three modes, run on the credentials \<open>cs1\<close>
  followed by \<open>cs2\<close>. If \<open>cancel\<close> has been called before the run over \<open>cs1\<close> ends
  (it was called before it began, or during one of the suspensions \<open>pre\<close> it went
  through), then \<open>_cancel\<close> is still set when that run ends, the loop stops at the top of
  its next iteration, and the credentials \<open>cs2\<close> change nothing: the run over all of them
  ends in the state the run over \<open>cs1\<close> ends in, with the same log.
\<close>

theorem cancel_stops_later_credentials:
  assumes P: "P = loginNations verbose \<or> P = restoreNations verbose \<or> P = auto verbose"
    and run: "P cs1 s = Some s1"
    and used: "snd s = pre @ snd s1"
    and called: "app_cancel (fst s) \<or> cancelled_in pre"
  shows "app_cancel (fst s1) \<and> P cs2 s1 = Some s1 \<and> P (cs1 @ cs2) s = Some s1"
proof -
  have adv: "advances s s1"
    using P run
    by (elim disjE) (simp_all add: loginNations_advances restoreNations_advances auto_advances)
  have c1: "app_cancel (fst s1)"
    using adv used called by (rule advances_cancel)
  have stop: "P cs2 s1 = Some s1"
    using P c1
    by (elim disjE) (simp_all add: loginNations_cancelled restoreNations_cancelled auto_cancelled)
  have "P (cs1 @ cs2) s = P cs1 s \<bind> P cs2"
    using P
    by (elim disjE) (simp_all add: loginNations_append restoreNations_append auto_append)
  with run stop have "P (cs1 @ cs2) s = Some s1" by simp
  with c1 stop show ?thesis by simp
qed

lemmas run_defs = login_try_def login_classify_def login_catch_def Ui_log_def cancel_def pause_def
  unpause_def parseInt_def js_toString_def isWhiteSpace_def isDigit_def digitsValue_def new_App_def
  cancelled_in_def

theorem cancel_stops_later_credentials_witness:
  "loginNations False
     ([\<lparr>nation = ''a'', password = ''p''\<rparr>] @ [\<lparr>nation = ''b'', password = ''q''\<rparr>])
     (new_App,
      [\<lparr>tick_events = [Cancel], tick_now = 0, tick_reply = Returns [], tick_load = None\<rparr>,
       \<lparr>tick_events = [], tick_now = 130000, tick_reply = Returns [(''lastlogin'', ''100'')],
          tick_load = None\<rparr>])
   = Some (new_App\<lparr>app_cancel := True, clock := 130000,
             ui_log := [(''info'', ''a: Logging in...''), (''info'', ''Cancelling...''),
                        LoginSucceeded \<lparr>nation = ''a'', password = ''p''\<rparr>],
             api_requests := [(''a'', [''nextissuetime''], Some ''p'', True),
                              (''a'', [''lastlogin''], None, False)]\<rparr>, [])"
  using cancel_stops_later_credentials[of "loginNations False" False
      "[\<lparr>nation = ''a'', password = ''p''\<rparr>]"
      "(new_App,
      [\<lparr>tick_events = [Cancel], tick_now = 0, tick_reply = Returns [], tick_load = None\<rparr>,
       \<lparr>tick_events = [], tick_now = 130000, tick_reply = Returns [(''lastlogin'', ''100'')],
          tick_load = None\<rparr>])"
      "(new_App\<lparr>app_cancel := True, clock := 130000,
             ui_log := [(''info'', ''a: Logging in...''), (''info'', ''Cancelling...''),
                        LoginSucceeded \<lparr>nation = ''a'', password = ''p''\<rparr>],
             api_requests := [(''a'', [''nextissuetime''], Some ''p'', True),
                              (''a'', [''lastlogin''], None, False)]\<rparr>, [])"
      "[\<lparr>tick_events = [Cancel], tick_now = 0, tick_reply = Returns [], tick_load = None\<rparr>,
       \<lparr>tick_events = [], tick_now = 130000, tick_reply = Returns [(''lastlogin'', ''100'')],
          tick_load = None\<rparr>]"
      "[\<lparr>nation = ''b'', password = ''q''\<rparr>]"]
  by (simp add: run_defs LoginSucceeded_def)

section \<open>The hard ceiling of the hidden form\<close>

lemma restoreRequest_promise:
  "promise (restoreRequest ua c load) =
     (case load of None \<Rightarrow> Rejected | Some t \<Rightarrow> if t < 9000 then Resolved else Rejected)"
  by (auto simp: restoreRequest_def start_request_def settle_def split: option.splits)

lemma loginRequest_promise: "promise (loginRequest ua c load) = Resolved"
  by (auto simp: loginRequest_def start_request_def settle_def split: option.splits)

lemma at_ceiling_resolved:
  "at_ceiling k form (start_request load) =
     Some \<lparr>resolved = (case load of None \<Rightarrow> False | Some t \<Rightarrow> t < 9000),
           promise = (case load of None \<Rightarrow> Pending | Some t \<Rightarrow> if t < 9000 then Resolved else Pending),
           listening = (case load of None \<Rightarrow> True | Some t \<Rightarrow> 15000 < t),
           submitted = (case load of None \<Rightarrow> [] | Some t \<Rightarrow> if 15000 < t then [] else [form])\<rparr>"
  by (auto simp: start_request_def settle_def split: option.splits)

text \<open>
  C8. Take a submission through the hidden form and the state in which its 15000 ms timer
  fires. If \<open>resolved\<close> is not set there (the 6000 ms timer has not fired, whether the
  frame loaded late or never), the promise is still pending at that moment, and the handler
  of the timer settles it there and then: that of \<open>restoreRequest\<close> leaves the promise
  rejected, that of \<open>loginRequest\<close> leaves it resolved, whatever timers are still to
  come; and so the promises end.
\<close>

theorem ceiling_rejects_restore_resolves_login:
  assumes "at_ceiling RestoreForm (restoreForm ua c) (start_request load) = Some st1"
    and "at_ceiling LoginForm (loginForm ua c) (start_request load) = Some st2"
    and "\<not> resolved st1" and "\<not> resolved st2"
  shows "promise st1 = Pending \<and>
         promise (fst (fire RestoreForm (restoreForm ua c) 15000 CeilingTimeout (st1, q1))) = Rejected \<and>
         promise (restoreRequest ua c load) = Rejected \<and>
         promise st2 = Pending \<and>
         promise (fst (fire LoginForm (loginForm ua c) 15000 CeilingTimeout (st2, q2))) = Resolved \<and>
         promise (loginRequest ua c load) = Resolved"
proof -
  have p1: "promise st1 = Pending"
    using assms(1,3) by (auto simp: at_ceiling_resolved split: option.splits if_splits)
  have p2: "promise st2 = Pending"
    using assms(2,4) by (auto simp: at_ceiling_resolved split: option.splits if_splits)
  have f1: "promise (fst (fire RestoreForm (restoreForm ua c) 15000 CeilingTimeout (st1, q1))) = Rejected"
    using p1 assms(3) by (simp add: settle_def)
  have f2: "promise (fst (fire LoginForm (loginForm ua c) 15000 CeilingTimeout (st2, q2))) = Resolved"
    using p2 assms(4) by (simp add: settle_def)
  have r1: "promise (restoreRequest ua c load) = Rejected"
    using assms(1,3)
    by (auto simp: at_ceiling_resolved restoreRequest_promise split: option.splits if_splits)
  have r2: "promise (loginRequest ua c load) = Resolved"
    by (rule loginRequest_promise)
  from p1 p2 f1 f2 r1 r2 show ?thesis by simp
qed

theorem ceiling_rejects_restore_resolves_login_witness:
  "promise (fst (fire RestoreForm (restoreForm ''ua'' \<lparr>nation = ''a'', password = ''p''\<rparr>) 15000
      CeilingTimeout
      (\<lparr>resolved = False, promise = Pending, listening = False,
         submitted = [restoreForm ''ua'' \<lparr>nation = ''a'', password = ''p''\<rparr>]\<rparr>,
       [(18000, SettleTimeout)]))) = Rejected \<and>
   promise (fst (fire LoginForm (loginForm ''ua'' \<lparr>nation = ''a'', password = ''p''\<rparr>) 15000
      CeilingTimeout
      (\<lparr>resolved = False, promise = Pending, listening = False,
         submitted = [loginForm ''ua'' \<lparr>nation = ''a'', password = ''p''\<rparr>]\<rparr>,
       [(18000, SettleTimeout)]))) = Resolved \<and>
   promise (restoreRequest ''ua'' \<lparr>nation = ''a'', password = ''p''\<rparr> (Some 12000)) = Rejected \<and>
   promise (loginRequest ''ua'' \<lparr>nation = ''a'', password = ''p''\<rparr> (Some 12000)) = Resolved"
  using ceiling_rejects_restore_resolves_login[of "''ua''" "\<lparr>nation = ''a'', password = ''p''\<rparr>" "Some 12000"
    "\<lparr>resolved = False, promise = Pending, listening = False,
       submitted = [restoreForm ''ua'' \<lparr>nation = ''a'', password = ''p''\<rparr>]\<rparr>"
    "\<lparr>resolved = False, promise = Pending, listening = False,
       submitted = [loginForm ''ua'' \<lparr>nation = ''a'', password = ''p''\<rparr>]\<rparr>"
    "[(18000, SettleTimeout)]" "[(18000, SettleTimeout)]"]
  by (simp add: start_request_def)

section \<open>The login procedure\<close>

lemma deliver_clock: "clock (deliver e w) = clock w"
  by (cases e) (simp_all add: cancel_def pause_def unpause_def Ui_log_def)

lemma fold_deliver_clock: "clock (fold deliver evs w) = clock w"
  by (induction evs arbitrary: w) (simp_all add: deliver_clock)

lemma deliver_userAgent: "app_userAgent (deliver e w) = app_userAgent w"
  by (cases e) (simp_all add: cancel_def pause_def unpause_def Ui_log_def)

lemma fold_deliver_userAgent: "app_userAgent (fold deliver evs w) = app_userAgent w"
  by (induction evs arbitrary: w) (simp_all add: deliver_userAgent)

lemma LoginSucceeded_neq_LoginFailed: "LoginSucceeded c \<noteq> LoginFailed c'"
  by (simp add: LoginSucceeded_def LoginFailed_def)

lemma login_try_two_reads:
  assumes "tick_reply t1 = Returns d1" and "tick_reply t2 = Returns d2"
  shows "login_try verbose c (w, t1 # t2 # ts) =
     Some (login_classify verbose c d2
             (fold deliver (tick_events t2)
                ((fold deliver (tick_events t1)
                   (w\<lparr>ui_log := ui_log w @ [(''info'', nation c @ '': Logging in...'')],
                      api_requests := api_requests w @ [(nation c, [''nextissuetime''], Some (password c), True)],
                      clock := tick_now t1\<rparr>))
                 \<lparr>api_requests := api_requests (fold deliver (tick_events t1)
                   (w\<lparr>ui_log := ui_log w @ [(''info'', nation c @ '': Logging in...'')],
                      api_requests := api_requests w @ [(nation c, [''nextissuetime''], Some (password c), True)],
                      clock := tick_now t1\<rparr>)) @ [(nation c, [''lastlogin''], None, False)],
                  clock := tick_now t2\<rparr>)), ts)"
  using assms by (simp add: login_try_def Ui_log_def)

text \<open>
  C1. In \<open>loginNations\<close>, when both remote reads return and the \<open>lastlogin\<close> field holds
  a timestamp (it parses to an integer, so that the difference to the clock exists), the run
  of that credential returns, and after the line \<open>Logging in...\<close> and the lines of the
  calls made during the two reads the log has the outcome: \<open>LoginSucceeded\<close> exactly when
  the clock read after the second read, in seconds, minus \<open>lastlogin\<close> is at most 30 (so
  also at exactly 30), and \<open>LoginFailed\<close> (with the reason after it when verbose) exactly
  when it is more than 30.
\<close>

theorem login_freshness:
  assumes "tick_reply t1 = Returns d1" and "tick_reply t2 = Returns d2"
    and "parseInt (js_toString (map_of d2 ''lastlogin'')) = Num lastLogin"
  shows "\<exists>w' outcome.
     login_try verbose c (w, t1 # t2 # ts) = Some (w', ts) \<and>
     ui_log w' = ui_log w @ (''info'', nation c @ '': Logging in...'')
                   # map event_line (tick_events t1 @ tick_events t2) @ outcome \<and>
     (outcome = [LoginSucceeded c] \<longleftrightarrow> of_int (tick_now t2) / 1000 - lastLogin \<le> 30) \<and>
     (outcome = LoginFailed c #
          (if verbose then [(''error'', ''More than 30 seconds between now and last login'')] else [])
        \<longleftrightarrow> 30 < of_int (tick_now t2) / 1000 - lastLogin)"
proof -
  define w2 where "w2 = fold deliver (tick_events t2)
                ((fold deliver (tick_events t1)
                   (w\<lparr>ui_log := ui_log w @ [(''info'', nation c @ '': Logging in...'')],
                      api_requests := api_requests w @ [(nation c, [''nextissuetime''], Some (password c), True)],
                      clock := tick_now t1\<rparr>))
                 \<lparr>api_requests := api_requests (fold deliver (tick_events t1)
                   (w\<lparr>ui_log := ui_log w @ [(''info'', nation c @ '': Logging in...'')],
                      api_requests := api_requests w @ [(nation c, [''nextissuetime''], Some (password c), True)],
                      clock := tick_now t1\<rparr>)) @ [(nation c, [''lastlogin''], None, False)],
                  clock := tick_now t2\<rparr>)"
  have run: "login_try verbose c (w, t1 # t2 # ts) = Some (login_classify verbose c d2 w2, ts)"
    unfolding w2_def using assms(1,2) by (rule login_try_two_reads)
  have log2: "ui_log w2 = ui_log w @ (''info'', nation c @ '': Logging in...'')
                   # map event_line (tick_events t1 @ tick_events t2)"
    by (simp add: w2_def fold_deliver_log)
  have clock2: "clock w2 = tick_now t2"
    by (simp add: w2_def fold_deliver_clock)
  show ?thesis
  proof (cases "30 < of_int (tick_now t2) / 1000 - lastLogin")
    case True
    have "ui_log (login_classify verbose c d2 w2) = ui_log w2 @ LoginFailed c #
          (if verbose then [(''error'', ''More than 30 seconds between now and last login'')] else [])"
      using True assms(3) by (simp add: login_classify_def clock2 Ui_log_def LoginFailed_def)
    with run log2 True show ?thesis
      by (intro exI[of _ "login_classify verbose c d2 w2"] exI[of _ "LoginFailed c #
          (if verbose then [(''error'', ''More than 30 seconds between now and last login'')] else [])"])
        (simp add: LoginSucceeded_neq_LoginFailed LoginSucceeded_neq_LoginFailed[symmetric])
  next
    case False
    have "ui_log (login_classify verbose c d2 w2) = ui_log w2 @ [LoginSucceeded c]"
      using False assms(3) by (simp add: login_classify_def clock2 Ui_log_def LoginSucceeded_def)
    with run log2 False show ?thesis
      by (intro exI[of _ "login_classify verbose c d2 w2"] exI[of _ "[LoginSucceeded c]"])
        (simp add: LoginSucceeded_neq_LoginFailed LoginSucceeded_neq_LoginFailed[symmetric])
  qed
qed

theorem login_freshness_witness:
  "\<exists>w'. login_try False \<lparr>nation = ''a'', password = ''p''\<rparr>
      (new_App,
       [\<lparr>tick_events = [], tick_now = 0, tick_reply = Returns [], tick_load = None\<rparr>,
        \<lparr>tick_events = [], tick_now = 130000, tick_reply = Returns [(''lastlogin'', ''100'')],
           tick_load = None\<rparr>]) = Some (w', []) \<and>
      ui_log w' = [(''info'', ''a: Logging in...''), LoginSucceeded \<lparr>nation = ''a'', password = ''p''\<rparr>]"
  using login_freshness[of
      "\<lparr>tick_events = [], tick_now = 0, tick_reply = Returns [], tick_load = None\<rparr>" "[]"
      "\<lparr>tick_events = [], tick_now = 130000, tick_reply = Returns [(''lastlogin'', ''100'')],
           tick_load = None\<rparr>" "[(''lastlogin'', ''100'')]" 100
      False "\<lparr>nation = ''a'', password = ''p''\<rparr>" new_App "[]"]
  by (auto simp: parseInt_def js_toString_def isWhiteSpace_def isDigit_def digitsValue_def new_App_def
        LoginSucceeded_neq_LoginFailed)

text \<open>
  What a remote read throws is caught for the credential: \<open>LoginFailed\<close> is logged (with
  the thrown value after it when verbose), and the loop goes on with the next credential.
\<close>

lemma login_try_first_read_throws:
  assumes "tick_reply t1 = Throws err"
  shows "\<exists>w'. login_try verbose c (w, t1 # ts) = Some (w', ts) \<and>
     ui_log w' = ui_log w @ (''info'', nation c @ '': Logging in...'')
                   # map event_line (tick_events t1) @
                   LoginFailed c # (if verbose then [(''error'', inspect err)] else [])"
  using assms
  by (simp add: login_try_def login_catch_def Ui_log_def fold_deliver_log LoginFailed_def)

lemma login_try_second_read_throws:
  assumes "tick_reply t1 = Returns d" and "tick_reply t2 = Throws err"
  shows "\<exists>w'. login_try verbose c (w, t1 # t2 # ts) = Some (w', ts) \<and>
     ui_log w' = ui_log w @ (''info'', nation c @ '': Logging in...'')
                   # map event_line (tick_events t1 @ tick_events t2) @
                   LoginFailed c # (if verbose then [(''error'', inspect err)] else [])"
  using assms
  by (simp add: login_try_def login_catch_def Ui_log_def fold_deliver_log LoginFailed_def)

lemma loginNations_goes_on:
  assumes "\<not> app_cancel (fst s)" and "waitUntilUnpaused s = Some s1"
    and "login_try verbose c s1 = Some s2"
  shows "loginNations verbose (c # cs) s = loginNations verbose cs s2"
  using assms by simp

text \<open>
  C3. A \<open>lastlogin\<close> field that does not parse throws nothing: \<open>parseInt\<close> returns
  \<open>NaN\<close>, the comparison with 30 is false, and the credential is logged as
  \<open>LoginSucceeded\<close>, not caught and logged as \<open>LoginFailed\<close>. Here both reads return
  and the second object has no \<open>lastlogin\<close> field.
\<close>

theorem login_absent_field_succeeds:
  "loginNations True [\<lparr>nation = ''a'', password = ''p''\<rparr>]
      (new_App,
       [\<lparr>tick_events = [], tick_now = 0, tick_reply = Returns [], tick_load = None\<rparr>,
        \<lparr>tick_events = [], tick_now = 130000, tick_reply = Returns [], tick_load = None\<rparr>])
     = Some (new_App\<lparr>clock := 130000,
               ui_log := [(''info'', ''a: Logging in...''),
                          LoginSucceeded \<lparr>nation = ''a'', password = ''p''\<rparr>],
               api_requests := [(''a'', [''nextissuetime''], Some ''p'', True),
                                (''a'', [''lastlogin''], None, False)]\<rparr>, []) \<and>
   parseInt (js_toString (map_of [] ''lastlogin'')) = NaN"
  by (simp add: run_defs LoginSucceeded_def)

section \<open>The restore procedure\<close>

lemma RestoreSucceeded_neq_RestoreFailed: "RestoreSucceeded c \<noteq> RestoreFailed c'"
  by (simp add: RestoreSucceeded_def RestoreFailed_def)

lemma restoreRequest_settles: "promise (restoreRequest ua c load) \<noteq> Pending"
  by (simp add: restoreRequest_promise split: option.splits)

text \<open>
  C5. In \<open>restoreNations\<close>, a credential that has reached the submission goes through
  the \<open>try\<close> statement with the suspension \<open>t1\<close> of the submission and, when the
  submission resolves, the suspension \<open>t2\<close> of the read of \<open>name\<close>. The statement
  always returns. After the lines of the calls made meanwhile, the log has
  \<open>RestoreSucceeded\<close> exactly when the promise of the submission resolved and the read
  returned, and \<open>RestoreFailed\<close> (with the thrown value after it when verbose) in every
  other case: the submission rejected, or the read threw. Nothing else of the world
  enters, so whether the nation was there before the submission plays no part.
\<close>

theorem restore_outcome:
  "\<exists>w' err.
     restore_try verbose c (w, t1 # t2 # ts) =
       Some (w', if promise (restoreRequest (app_userAgent w) c (tick_load t1)) = Resolved
                 then ts else t2 # ts) \<and>
     ui_log w' = ui_log w @
       map event_line
         (tick_events t1 @
          (if promise (restoreRequest (app_userAgent w) c (tick_load t1)) = Resolved
           then tick_events t2 else [])) @
       (if promise (restoreRequest (app_userAgent w) c (tick_load t1)) = Resolved \<and>
           (\<exists>d. tick_reply t2 = Returns d)
        then [RestoreSucceeded c]
        else RestoreFailed c # (if verbose then [(''error'', inspect err)] else []))"
proof -
  define w1 where "w1 = fold deliver (tick_events t1) (w\<lparr>clock := tick_now t1\<rparr>)"
  define r where "r = restoreRequest (app_userAgent w) c (tick_load t1)"
  define w1f where "w1f = w1\<lparr>forms := forms w1 @
      submitted_by_ceiling RestoreForm (restoreForm (app_userAgent w) c) (tick_load t1)\<rparr>"
  have ua: "app_userAgent w1 = app_userAgent w"
    by (simp add: w1_def fold_deliver_userAgent)
  have a1: "await_restoreRequest c (w, t1 # t2 # ts) = Some (promise r, (w1f, t2 # ts))"
    by (simp add: w1_def[symmetric] ua r_def[symmetric] w1f_def Let_def)
  have log1: "ui_log w1f = ui_log w @ map event_line (tick_events t1)"
    by (simp add: w1f_def w1_def fold_deliver_log)
  consider (rej) "promise r = Rejected" | (res) "promise r = Resolved"
    using restoreRequest_settles[of "app_userAgent w" c "tick_load t1"]
    by (cases "promise r") (simp_all add: r_def)
  then show ?thesis
  proof cases
    case rej
    have run: "restore_try verbose c (w, t1 # t2 # ts)
        = Some (restore_catch verbose c Undefined w1f, t2 # ts)"
      using a1 rej by (simp add: restore_try_def del: await_restoreRequest.simps)
    have log: "ui_log (restore_catch verbose c Undefined w1f) =
        ui_log w @ map event_line (tick_events t1) @
          RestoreFailed c # (if verbose then [(''error'', inspect Undefined)] else [])"
      by (simp add: restore_catch_def Ui_log_def log1 RestoreFailed_def)
    show ?thesis
      using run log rej
      by (intro exI[of _ "restore_catch verbose c Undefined w1f"] exI[of _ Undefined])
         (simp add: r_def)
  next
    case res
    define w2 where "w2 = fold deliver (tick_events t2)
        (w1f\<lparr>api_requests := api_requests w1f @ [(nation c, [''name''], None, False)],
              clock := tick_now t2\<rparr>)"
    have n2: "nationRequest (nation c) [''name''] None False (w1f, t2 # ts)
        = Some (tick_reply t2, (w2, ts))"
      by (simp add: w2_def)
    have log2: "ui_log w2 = ui_log w @ map event_line (tick_events t1 @ tick_events t2)"
      by (simp add: w2_def fold_deliver_log log1)
    show ?thesis
    proof (cases "tick_reply t2")
      case (Returns d)
      have run: "restore_try verbose c (w, t1 # t2 # ts) =
          Some (Ui_log ''info'' (nation c @ '': Restore successful (or nation already existed)'') w2, ts)"
        using a1 res n2 Returns
        by (simp add: restore_try_def del: await_restoreRequest.simps nationRequest.simps)
      have log: "ui_log (Ui_log ''info'' (nation c @ '': Restore successful (or nation already existed)'') w2)
          = ui_log w @ map event_line (tick_events t1 @ tick_events t2) @ [RestoreSucceeded c]"
        by (simp add: Ui_log_def log2 RestoreSucceeded_def)
      show ?thesis
        using run log res Returns
        by (intro exI[of _ "Ui_log ''info'' (nation c @ '': Restore successful (or nation already existed)'') w2"]
              exI[of _ Undefined])
           (simp add: r_def)
    next
      case (Throws err)
      have run: "restore_try verbose c (w, t1 # t2 # ts) = Some (restore_catch verbose c err w2, ts)"
        using a1 res n2 Throws
        by (simp add: restore_try_def del: await_restoreRequest.simps nationRequest.simps)
      have log: "ui_log (restore_catch verbose c err w2) =
          ui_log w @ map event_line (tick_events t1 @ tick_events t2) @
            RestoreFailed c # (if verbose then [(''error'', inspect err)] else [])"
        by (simp add: restore_catch_def Ui_log_def log2 RestoreFailed_def)
      show ?thesis
        using run log Throws res
        by (intro exI[of _ "restore_catch verbose c err w2"] exI[of _ err])
           (simp add: r_def)
    qed
  qed
qed

theorem restore_outcome_witness:
  "\<exists>w'. restore_try False \<lparr>nation = ''a'', password = ''p''\<rparr>
      (new_App,
       [\<lparr>tick_events = [], tick_now = 0, tick_reply = Returns [], tick_load = Some 100\<rparr>,
        \<lparr>tick_events = [], tick_now = 7000, tick_reply = Returns [(''name'', ''a'')],
           tick_load = None\<rparr>]) = Some (w', []) \<and>
      ui_log w' = [RestoreSucceeded \<lparr>nation = ''a'', password = ''p''\<rparr>]"
  using restore_outcome[of False "\<lparr>nation = ''a'', password = ''p''\<rparr>" new_App
      "\<lparr>tick_events = [], tick_now = 0, tick_reply = Returns [], tick_load = Some 100\<rparr>"
      "\<lparr>tick_events = [], tick_now = 7000, tick_reply = Returns [(''name'', ''a'')],
           tick_load = None\<rparr>" "[]"]
  by (auto simp: restoreRequest_promise new_App_def)

section \<open>The auto procedure\<close>

lemma bind_Some_right: "(x :: 'a option) \<bind> Some = x"
  by (cases x) simp_all

lemma auto_Nil_fun: "auto verbose [] = Some"
  by (rule ext) simp

text \<open>
  C6. In \<open>auto\<close>, a credential that is not skipped is probed by a read of \<open>name\<close>.
  From the state \<open>s2\<close> after the probe, what \<open>auto\<close> does with the credential is what
  \<open>loginNations\<close> does on the one-element list when the probe returned, and what
  \<open>restoreNations\<close> does on it (after the line \<open>Nation does not exist\<close>) when the probe
  threw; the rest of the list follows.
\<close>

theorem auto_dispatch:
  assumes "\<not> app_cancel (fst s)" and "waitUntilUnpaused s = Some s1"
    and "nationRequest (nation c) [''name''] None False
           (apfst (Ui_log ''info'' (nation c @ '': Nation exists'')) s1) = Some (r, s2)"
  shows "auto verbose [c] s =
           (case r of
              Returns d \<Rightarrow> loginNations verbose [c] s2
            | Throws e \<Rightarrow> restoreNations verbose [c]
                (apfst (Ui_log ''info'' (nation c @ '': Nation does not exist'')) s2)) \<and>
         auto verbose (c # cs) s = auto verbose [c] s \<bind> auto verbose cs"
proof -
  have one: "auto_one verbose c s1 =
           (case r of
              Returns d \<Rightarrow> loginNations verbose [c] s2
            | Throws e \<Rightarrow> restoreNations verbose [c]
                (apfst (Ui_log ''info'' (nation c @ '': Nation does not exist'')) s2))"
    using assms(3) by (cases r) (simp_all add: auto_one_def)
  have single: "auto verbose [c] s = auto_one verbose c s1"
    using assms(1,2) by (simp add: auto_Nil_fun bind_Some_right)
  have "auto verbose (c # cs) s = auto_one verbose c s1 \<bind> auto verbose cs"
    using assms(1,2) by simp
  with single one show ?thesis by simp
qed

theorem auto_dispatch_witness:
  "auto True [\<lparr>nation = ''a'', password = ''p''\<rparr>]
     (new_App, [\<lparr>tick_events = [], tick_now = 0, tick_reply = Returns [(''name'', ''a'')],
                  tick_load = None\<rparr>,
                \<lparr>tick_events = [], tick_now = 1, tick_reply = Throws (Error ''403''),
                  tick_load = None\<rparr>])
   = loginNations True [\<lparr>nation = ''a'', password = ''p''\<rparr>]
       (new_App\<lparr>ui_log := [(''info'', ''a: Nation exists'')],
                api_requests := [(''a'', [''name''], None, False)]\<rparr>,
        [\<lparr>tick_events = [], tick_now = 1, tick_reply = Throws (Error ''403''),
           tick_load = None\<rparr>])"
  using auto_dispatch[of
      "(new_App, [\<lparr>tick_events = [], tick_now = 0, tick_reply = Returns [(''name'', ''a'')],
                  tick_load = None\<rparr>,
                \<lparr>tick_events = [], tick_now = 1, tick_reply = Throws (Error ''403''),
                  tick_load = None\<rparr>])"
      "(new_App, [\<lparr>tick_events = [], tick_now = 0, tick_reply = Returns [(''name'', ''a'')],
                  tick_load = None\<rparr>,
                \<lparr>tick_events = [], tick_now = 1, tick_reply = Throws (Error ''403''),
                  tick_load = None\<rparr>])"
      "\<lparr>nation = ''a'', password = ''p''\<rparr>" "Returns [(''name'', ''a'')]"
      "(new_App\<lparr>ui_log := [(''info'', ''a: Nation exists'')],
                api_requests := [(''a'', [''name''], None, False)]\<rparr>,
        [\<lparr>tick_events = [], tick_now = 1, tick_reply = Throws (Error ''403''),
           tick_load = None\<rparr>])" True "[]"]
  by (simp add: new_App_def Ui_log_def)

lemma advances_log_prefix: "advances s s' \<Longrightarrow> prefix (ui_log (fst s)) (ui_log (fst s'))"
  by (simp add: advances_def keeps_def)

text \<open>
  C10. In \<open>auto\<close>, for a credential that is not skipped, the line \<open>Nation exists\<close> is
  logged before the probe is awaited: in the log it comes before the lines of the calls made
  while the probe was pending. When the probe throws, the line \<open>Nation does not exist\<close>
  comes after them, so the log holds both lines, in that order; they stay there to the end
  of the run (\<open>w2\<close> is the world handed to the login or restore procedure).
\<close>

theorem auto_logs_exists_before_probe:
  assumes "\<not> app_cancel (fst s)" and "waitUntilUnpaused s = Some (w1, t # ts)"
  shows "\<exists>w2.
     ui_log w2 = ui_log w1 @ (''info'', nation c @ '': Nation exists'')
                   # map event_line (tick_events t) @
                   (case tick_reply t of
                      Returns d \<Rightarrow> []
                    | Throws e \<Rightarrow> [(''info'', nation c @ '': Nation does not exist'')]) \<and>
     auto verbose (c # cs) s =
       (case tick_reply t of
          Returns d \<Rightarrow> loginNations verbose [c] (w2, ts)
        | Throws e \<Rightarrow> restoreNations verbose [c] (w2, ts)) \<bind> auto verbose cs \<and>
     (\<forall>s'. auto verbose (c # cs) s = Some s' \<longrightarrow> prefix (ui_log w2) (ui_log (fst s')))"
proof -
  define w2 where "w2 = fold deliver (tick_events t)
      (w1\<lparr>ui_log := ui_log w1 @ [(''info'', nation c @ '': Nation exists'')],
          api_requests := api_requests w1 @ [(nation c, [''name''], None, False)],
          clock := tick_now t\<rparr>)"
  have probe: "nationRequest (nation c) [''name''] None False
      (apfst (Ui_log ''info'' (nation c @ '': Nation exists'')) (w1, t # ts))
        = Some (tick_reply t, (w2, ts))"
    by (simp add: w2_def Ui_log_def)
  have log2: "ui_log w2 = ui_log w1 @ (''info'', nation c @ '': Nation exists'')
                   # map event_line (tick_events t)"
    by (simp add: w2_def fold_deliver_log)
  show ?thesis
  proof (cases "tick_reply t")
    case (Returns d)
    have one: "auto_one verbose c (w1, t # ts) = loginNations verbose [c] (w2, ts)"
      using probe Returns by (simp add: auto_one_def del: nationRequest.simps)
    have run: "auto verbose (c # cs) s = loginNations verbose [c] (w2, ts) \<bind> auto verbose cs"
      using assms one by simp
    have "prefix (ui_log w2) (ui_log (fst s'))" if "auto verbose (c # cs) s = Some s'" for s'
    proof -
      from that run obtain s3 where l: "loginNations verbose [c] (w2, ts) = Some s3"
        and a: "auto verbose cs s3 = Some s'"
        by (auto split: bind_splits)
      have "advances (w2, ts) s'"
        by (rule advances_trans[OF loginNations_advances[OF l] auto_advances[OF a]])
      then show ?thesis using advances_log_prefix by fastforce
    qed
    with run log2 Returns show ?thesis
      by (intro exI[of _ w2]) simp
  next
    case (Throws e)
    define w3 where "w3 = Ui_log ''info'' (nation c @ '': Nation does not exist'') w2"
    have one: "auto_one verbose c (w1, t # ts) = restoreNations verbose [c] (w3, ts)"
      using probe Throws by (simp add: auto_one_def w3_def del: nationRequest.simps)
    have run: "auto verbose (c # cs) s = restoreNations verbose [c] (w3, ts) \<bind> auto verbose cs"
      using assms one by simp
    have log3: "ui_log w3 = ui_log w1 @ (''info'', nation c @ '': Nation exists'')
                   # map event_line (tick_events t) @ [(''info'', nation c @ '': Nation does not exist'')]"
      by (simp add: w3_def Ui_log_def log2)
    have "prefix (ui_log w3) (ui_log (fst s'))" if "auto verbose (c # cs) s = Some s'" for s'
    proof -
      from that run obtain s4 where l: "restoreNations verbose [c] (w3, ts) = Some s4"
        and a: "auto verbose cs s4 = Some s'"
        by (auto split: bind_splits)
      have "advances (w3, ts) s'"
        by (rule advances_trans[OF restoreNations_advances[OF l] auto_advances[OF a]])
      then show ?thesis using advances_log_prefix by fastforce
    qed
    with run log3 Throws show ?thesis
      by (intro exI[of _ w3]) simp
  qed
qed

theorem auto_logs_exists_before_probe_witness:
  "auto False [\<lparr>nation = ''g'', password = ''p''\<rparr>]
     (new_App,
      [\<lparr>tick_events = [Pause], tick_now = 5, tick_reply = Throws (Error ''404''), tick_load = None\<rparr>,
       \<lparr>tick_events = [Unpause], tick_now = 1005, tick_reply = Returns [], tick_load = None\<rparr>,
       \<lparr>tick_events = [], tick_now = 2000, tick_reply = Returns [], tick_load = None\<rparr>,
       \<lparr>tick_events = [], tick_now = 8100, tick_reply = Returns [], tick_load = Some 100\<rparr>,
       \<lparr>tick_events = [], tick_now = 9000, tick_reply = Returns [(''name'', ''g'')],
          tick_load = None\<rparr>])
   = Some (new_App\<lparr>clock := 9000,
             ui_log := [(''info'', ''g: Nation exists''), (''info'', ''Pausing...''),
                        (''info'', ''g: Nation does not exist''), (''info'', ''Unpausing...''),
                        (''info'', ''g: Waiting for confirmation...''),
                        (''info'', ''g: Confirmation received, restoring...''),
                        RestoreSucceeded \<lparr>nation = ''g'', password = ''p''\<rparr>],
             api_requests := [(''g'', [''name''], None, False), (''g'', [''name''], None, False)],
             forms := [restoreForm [] \<lparr>nation = ''g'', password = ''p''\<rparr>]\<rparr>, []) \<and>
   prefix [(''info'', ''g: Nation exists''), (''info'', ''Pausing...''),
           (''info'', ''g: Nation does not exist'')]
     (ui_log (fst (the (auto False [\<lparr>nation = ''g'', password = ''p''\<rparr>]
     (new_App,
      [\<lparr>tick_events = [Pause], tick_now = 5, tick_reply = Throws (Error ''404''), tick_load = None\<rparr>,
       \<lparr>tick_events = [Unpause], tick_now = 1005, tick_reply = Returns [], tick_load = None\<rparr>,
       \<lparr>tick_events = [], tick_now = 2000, tick_reply = Returns [], tick_load = None\<rparr>,
       \<lparr>tick_events = [], tick_now = 8100, tick_reply = Returns [], tick_load = Some 100\<rparr>,
       \<lparr>tick_events = [], tick_now = 9000, tick_reply = Returns [(''name'', ''g'')],
          tick_load = None\<rparr>])))))"
  using auto_logs_exists_before_probe[of
      "(new_App,
      [\<lparr>tick_events = [Pause], tick_now = 5, tick_reply = Throws (Error ''404''), tick_load = None\<rparr>,
       \<lparr>tick_events = [Unpause], tick_now = 1005, tick_reply = Returns [], tick_load = None\<rparr>,
       \<lparr>tick_events = [], tick_now = 2000, tick_reply = Returns [], tick_load = None\<rparr>,
       \<lparr>tick_events = [], tick_now = 8100, tick_reply = Returns [], tick_load = Some 100\<rparr>,
       \<lparr>tick_events = [], tick_now = 9000, tick_reply = Returns [(''name'', ''g'')],
          tick_load = None\<rparr>])" new_App
      "\<lparr>tick_events = [Pause], tick_now = 5, tick_reply = Throws (Error ''404''), tick_load = None\<rparr>"
      "[\<lparr>tick_events = [Unpause], tick_now = 1005, tick_reply = Returns [], tick_load = None\<rparr>,
       \<lparr>tick_events = [], tick_now = 2000, tick_reply = Returns [], tick_load = None\<rparr>,
       \<lparr>tick_events = [], tick_now = 8100, tick_reply = Returns [], tick_load = Some 100\<rparr>,
       \<lparr>tick_events = [], tick_now = 9000, tick_reply = Returns [(''name'', ''g'')],
          tick_load = None\<rparr>]"
      "\<lparr>nation = ''g'', password = ''p''\<rparr>" False "[]"]
  by (simp add: new_App_def auto_one_def restore_one_def restore_try_def Ui_confirm_def Ui_log_def
        pause_def unpause_def restoreRequest_promise submitted_by_ceiling_def at_ceiling_resolved
        RestoreSucceeded_def)

section \<open>Client construction and release in \<open>start\<close>\<close>

lemma advances_keeps: "advances s s' \<Longrightarrow> keeps (fst s) (fst s')"
  by (simp add: advances_def)

lemma dispatch_advances:
  assumes "dispatch mode credentials verbose s = Some (r, s1)"
  shows "advances s s1"
proof -
  consider (a) "mode = Mode_Auto"
    | (l) "mode \<noteq> Mode_Auto" "mode = Mode_Login"
    | (r) "mode \<noteq> Mode_Auto" "mode \<noteq> Mode_Login" "mode = Mode_Restore"
    | (u) "mode \<noteq> Mode_Auto" "mode \<noteq> Mode_Login" "mode \<noteq> Mode_Restore"
    by blast
  then show ?thesis
  proof cases
    case a
    with assms have "auto verbose credentials (apfst (Ui_log ''info'' ''Auto mode'') s) = Some s1"
      by (auto simp: dispatch_def)
    then show ?thesis
      by (rule advances_trans[OF Ui_log_advances auto_advances])
  next
    case l
    with assms have "loginNations verbose credentials (apfst (Ui_log ''info'' ''Login mode'') s) = Some s1"
      by (auto simp: dispatch_def)
    then show ?thesis
      by (rule advances_trans[OF Ui_log_advances loginNations_advances])
  next
    case r
    with assms have "restoreNations verbose credentials (apfst (Ui_log ''info'' ''Restore mode'') s) = Some s1"
      by (auto simp: dispatch_def)
    then show ?thesis
      by (rule advances_trans[OF Ui_log_advances restoreNations_advances])
  next
    case u
    with assms have "s1 = s" by (simp add: dispatch_def)
    then show ?thesis by simp
  qed
qed

lemma try_finally_cleanup:
  assumes "try_finally body NsApi_cleanup s = Some (r, s')"
  shows "\<exists>s1. body s = Some (r, s1) \<and> api_cleanups (fst s') = Suc (api_cleanups (fst s1)) \<and>
              api_created (fst s') = api_created (fst s1) \<and>
              app_userAgent (fst s') = app_userAgent (fst s1)"
  using assms by (auto simp: try_finally_def NsApi_cleanup_def split: option.splits)

lemma start_run_frame:
  assumes "start_run mode credentials verbose s2 = Some (r, s')"
  shows "api_cleanups (fst s') = Suc (api_cleanups (fst s2)) \<and>
         api_created (fst s') = api_created (fst s2) \<and>
         app_userAgent (fst s') = app_userAgent (fst s2)"
proof -
  from assms obtain r3 s3 where tf:
    "try_finally (dispatch mode credentials verbose) NsApi_cleanup s2 = Some (r3, s3)"
    by (auto simp: start_run_def split: option.splits)
  from try_finally_cleanup[OF tf] obtain s1 where
    d: "dispatch mode credentials verbose s2 = Some (r3, s1)"
    and c3: "api_cleanups (fst s3) = Suc (api_cleanups (fst s1))"
      "api_created (fst s3) = api_created (fst s1)"
      "app_userAgent (fst s3) = app_userAgent (fst s1)"
    by blast
  have k1: "keeps (fst s2) (fst s1)"
    using dispatch_advances[OF d] by (rule advances_keeps)
  have f3: "api_cleanups (fst s3) = Suc (api_cleanups (fst s2))"
    "api_created (fst s3) = api_created (fst s2)"
    "app_userAgent (fst s3) = app_userAgent (fst s2)"
    using k1 c3 by (simp_all add: keeps_def)
  show ?thesis
  proof (cases r3)
    case (Some err)
    with assms tf have "s' = s3"
      by (simp add: start_run_def)
    with f3 show ?thesis by simp
  next
    case None
    let ?s3' = "apfst (Ui_log ''info''
        (if app_cancel (fst s3) then ''Process cancelled.'' else ''Process complete.'')) s3"
    from assms tf None obtain s4 where w4: "waitUntilUnpaused ?s3' = Some s4"
      and s': "s' = apfst Ui_handleFinish s4"
      by (auto simp: start_run_def split: option.splits)
    have "advances s3 s4"
      by (rule advances_trans[OF Ui_log_advances waitUntilUnpaused_advances[OF w4]])
    then have "keeps (fst s3) (fst s4)" by (rule advances_keeps)
    with f3 s' show ?thesis
      by (simp add: keeps_def Ui_handleFinish_def)
  qed
qed

lemma start_accepted:
  assumes "\<not> apiDelay_refused rateLimit"
  shows "start userAgent rateLimit mode credentials verbose s =
     start_run mode credentials verbose
       ((reset (fst s))\<lparr>app_userAgent := composed_userAgent userAgent,
                        api_created := api_created (fst s) @ [(userAgent, True, rateLimit)]\<rparr>,
        snd s)"
  using assms by (cases s) (simp add: start_def NsApi_new_def reset_def Let_def)

lemma start_refused:
  assumes "apiDelay_refused rateLimit"
  shows "start userAgent rateLimit mode credentials verbose s =
     Some (Some RangeError,
           ((reset (fst s))\<lparr>app_userAgent := composed_userAgent userAgent\<rparr>, snd s))"
  using assms by (cases s) (simp add: start_def NsApi_new_def Let_def)

text \<open>
  C7. Take an invocation of \<open>start\<close> whose client has been constructed, so that a procedure
  is dispatched. Whenever \<open>start\<close> then comes back, by returning (\<open>r = None\<close>, the run
  complete or cancelled) or by throwing (\<open>r = Some e\<close>, as for an unrecognised mode),
  \<open>cleanup\<close> has been called exactly once on the client. The procedures catch what the
  calls they await throw, so the unrecognised mode is the one throwing path of the \<open>try\<close>
  block; for any block at all, \<open>try_finally_cleanup\<close> shows the same count.
\<close>

theorem cleanup_exactly_once:
  assumes "\<not> apiDelay_refused rateLimit"
    and "start userAgent rateLimit mode credentials verbose s = Some (r, s')"
  shows "api_cleanups (fst s') = Suc (api_cleanups (fst s))"
proof -
  from assms have "start_run mode credentials verbose
       ((reset (fst s))\<lparr>app_userAgent := composed_userAgent userAgent,
                        api_created := api_created (fst s) @ [(userAgent, True, rateLimit)]\<rparr>,
        snd s) = Some (r, s')"
    by (simp add: start_accepted)
  from start_run_frame[OF this] show ?thesis by (simp add: reset_def)
qed

theorem cleanup_exactly_once_witness:
  "start ''me'' (Num 600) 7 [] False (new_App, []) =
     Some (Some (Error ''Unrecognized mode''),
           new_App\<lparr>app_userAgent := composed_userAgent ''me'',
                    api_created := [(''me'', True, Num 600)], api_cleanups := 1\<rparr>, []) \<and>
   api_cleanups (fst (new_App\<lparr>app_userAgent := composed_userAgent ''me'',
                    api_created := [(''me'', True, Num 600)], api_cleanups := 1\<rparr>, [] :: tick list))
     = Suc (api_cleanups (fst (new_App, [] :: tick list)))"
  using cleanup_exactly_once[of "Num 600" "''me''" 7 "[]" False "(new_App, [])"
      "Some (Error ''Unrecognized mode'')"
      "(new_App\<lparr>app_userAgent := composed_userAgent ''me'',
                    api_created := [(''me'', True, Num 600)], api_cleanups := 1\<rparr>, [])"]
  by (simp add: start_def start_run_def dispatch_def try_finally_def Mode_Auto_def Mode_Login_def
        Mode_Restore_def apiDelay_refused_def NsApi_new_def NsApi_cleanup_def reset_def new_App_def)

text \<open>
  C9, as amended. In every invocation of \<open>start\<close> the composed identity string is stored in
  \<open>_userAgent\<close> and the constructor of the client is called with the operator tag itself
  (with \<open>true\<close> and the rate limit). When the constructor refuses the rate limit,
  \<open>start\<close> throws at once and no client exists. Otherwise the run goes on from a world whose
  client was constructed with the operator tag, and neither the client nor \<open>_userAgent\<close>
  has changed when \<open>start\<close> comes back.
\<close>

theorem client_gets_operator_tag:
  "(apiDelay_refused rateLimit \<longrightarrow>
      start userAgent rateLimit mode credentials verbose s =
        Some (Some RangeError,
              ((reset (fst s))\<lparr>app_userAgent := composed_userAgent userAgent\<rparr>, snd s))) \<and>
   (\<not> apiDelay_refused rateLimit \<longrightarrow>
      start userAgent rateLimit mode credentials verbose s =
        start_run mode credentials verbose
          ((reset (fst s))\<lparr>app_userAgent := composed_userAgent userAgent,
                           api_created := api_created (fst s) @ [(userAgent, True, rateLimit)]\<rparr>,
           snd s) \<and>
      (\<forall>r s'. start userAgent rateLimit mode credentials verbose s = Some (r, s') \<longrightarrow>
         api_created (fst s') = api_created (fst s) @ [(userAgent, True, rateLimit)] \<and>
         app_userAgent (fst s') = composed_userAgent userAgent))"
proof (intro conjI impI allI)
  assume "apiDelay_refused rateLimit"
  then show "start userAgent rateLimit mode credentials verbose s =
        Some (Some RangeError,
              ((reset (fst s))\<lparr>app_userAgent := composed_userAgent userAgent\<rparr>, snd s))"
    by (rule start_refused)
next
  assume "\<not> apiDelay_refused rateLimit"
  then show "start userAgent rateLimit mode credentials verbose s =
        start_run mode credentials verbose
          ((reset (fst s))\<lparr>app_userAgent := composed_userAgent userAgent,
                           api_created := api_created (fst s) @ [(userAgent, True, rateLimit)]\<rparr>,
           snd s)"
    by (rule start_accepted)
next
  fix r s'
  assume acc: "\<not> apiDelay_refused rateLimit"
    and ret: "start userAgent rateLimit mode credentials verbose s = Some (r, s')"
  from acc ret have "start_run mode credentials verbose
       ((reset (fst s))\<lparr>app_userAgent := composed_userAgent userAgent,
                        api_created := api_created (fst s) @ [(userAgent, True, rateLimit)]\<rparr>,
        snd s) = Some (r, s')"
    by (simp add: start_accepted)
  from start_run_frame[OF this]
  show "api_created (fst s') = api_created (fst s) @ [(userAgent, True, rateLimit)]"
    and "app_userAgent (fst s') = composed_userAgent userAgent"
    by (simp_all add: reset_def)
qed

theorem client_gets_operator_tag_witness:
  "start ''t'' (Num 600) Mode_Login [] False (new_App, []) =
     Some (None,
           new_App\<lparr>app_userAgent := composed_userAgent ''t'',
             ui_log := [(''info'', ''Login mode''), (''info'', ''Process complete.'')],
             ui_finished := 1, api_created := [(''t'', True, Num 600)], api_cleanups := 1\<rparr>, []) \<and>
   api_created (fst (snd (the (start ''t'' (Num 600) Mode_Login [] False (new_App, [])))))
     = api_created new_App @ [(''t'', True, Num 600)] \<and>
   start ''t'' (Num 6) Mode_Login [] False (new_App, []) =
     Some (Some RangeError, new_App\<lparr>app_userAgent := composed_userAgent ''t''\<rparr>, [])"
  using client_gets_operator_tag[of "Num 600" "''t''" Mode_Login "[]" False "(new_App, [])"]
    client_gets_operator_tag[of "Num 6" "''t''" Mode_Login "[]" False "(new_App, [])"]
  by (simp add: start_run_def dispatch_def try_finally_def Mode_Auto_def Mode_Login_def
        Mode_Restore_def apiDelay_refused_def NsApi_cleanup_def reset_def new_App_def Ui_log_def
        Ui_handleFinish_def)

text \<open>
  C9, as stated, fails: started with the tag \<open>t\<close> and a rate limit of 600, the run
  constructs its client with \<open>t\<close>, which is not the composed identity string.
\<close>

theorem client_identity_counterexample:
  "map fst (api_created (fst (snd (the (start ''t'' (Num 600) Mode_Login [] False (new_App, []))))))
     = [''t''] \<and>
   [''t''] \<noteq> [composed_userAgent ''t''] \<and>
   composed_userAgent ''t'' = ''nslogin-web (maintained by Auralia, currently used by \"t\")''"
  by (simp add: start_def start_run_def dispatch_def try_finally_def Mode_Auto_def Mode_Login_def
        Mode_Restore_def apiDelay_refused_def NsApi_new_def NsApi_cleanup_def reset_def new_App_def
        Ui_log_def Ui_handleFinish_def composed_userAgent_def)

section \<open>Results about the name normalisation\<close>

lemmas str_defs =
  toId_def trim_def toLowerCase_def lowerChar_def isWhiteSpace_def

text \<open>
  C4. \<open>toId\<close> is documented as turning a name into lower case with its spaces replaced by
  underscores. On the name \<open>a b c\<close>, which has two internal spaces, it replaces the first
  space only and returns \<open>a_b c\<close>: the second space stays.
\<close>

theorem toId_replaces_first_space_only:
  "toId ''a b c'' = ''a_b c'' \<and> toId ''a b c'' \<noteq> ''a_b_c'' \<and> CHR '' '' \<in> set (toId ''a b c'')"
  by (simp add: str_defs)

end
